theory Spec2Isabelle
  imports Main
begin

section \<open>Python strings\<close>

text \<open>
  A Python \<open>str\<close> is a sequence of Unicode code points. A code point is a natural
  number here, a string a list of them. \<open>py\<close> turns an ASCII literal into such a list.
\<close>

type_synonym pychar = nat
type_synonym pystr = "pychar list"

definition py :: "string \<Rightarrow> pystr" where
  "py s = map of_char s"

definition NL :: pychar where
  "NL = 10"

definition SP :: pychar where
  "SP = 32"

text \<open>
  \<open>str.isspace\<close> for one code point; \<open>str.strip()\<close> and the class \<open>\s\<close> of \<open>re\<close> on
  \<open>str\<close> patterns use the same set.
\<close>

definition isspace :: "pychar \<Rightarrow> bool" where
  "isspace c =
     (c \<in> set [9, 10, 11, 12, 13, 28, 29, 30, 31, 32, 133, 160, 5760,
                8232, 8233, 8239, 8287, 12288]
      \<or> (8192 \<le> c \<and> c \<le> 8202))"

text \<open>\<open>s.strip()\<close>: whitespace removed at both ends.\<close>

definition strip :: "pystr \<Rightarrow> pystr" where
  "strip s = rev (dropWhile isspace (rev (dropWhile isspace s)))"

text \<open>\<open>sep.join(xs)\<close>.\<close>

fun join :: "pystr \<Rightarrow> pystr list \<Rightarrow> pystr" where
  "join sep [] = []"
| "join sep [x] = x"
| "join sep (x # y # ys) = x @ sep @ join sep (y # ys)"

text \<open>\<open>s.split("\n")\<close>: always at least one piece.\<close>

fun split_nl :: "pystr \<Rightarrow> pystr list" where
  "split_nl [] = [[]]"
| "split_nl (c # cs) =
     (if c = NL then [] # split_nl cs
      else (case split_nl cs of
              [] \<Rightarrow> [[c]]
            | l # ls \<Rightarrow> (c # l) # ls))"

text \<open>\<open>kw in s\<close>: \<open>kw\<close> occurs in \<open>s\<close> as a contiguous substring.\<close>

fun contains :: "pystr \<Rightarrow> pystr \<Rightarrow> bool" where
  "contains kw [] = (kw = [])"
| "contains kw (c # cs) = (take (length kw) (c # cs) = kw \<or> contains kw cs)"

text \<open>\<open>s.replace(' ', '=')\<close>.\<close>

definition replace_sp_eq :: "pystr \<Rightarrow> pystr" where
  "replace_sp_eq s = map (\<lambda>c. if c = SP then 61 else c) s"

text \<open>\<open>str(i)\<close> for a non-negative integer: its decimal digits.\<close>

fun str_nat :: "nat \<Rightarrow> pystr" where
  "str_nat n = (if n < 10 then [48 + n] else str_nat (n div 10) @ [48 + n mod 10])"

declare str_nat.simps [simp del]

text \<open>
  \<open>str.upper\<close> and \<open>str.lower\<close> follow the Unicode tables; the functions of the converter
  take them as parameters. On ASCII strings they are the two functions below, which the
  concrete examples use.
\<close>

definition ascii_upper :: "pystr \<Rightarrow> pystr" where
  "ascii_upper s = map (\<lambda>c. if 97 \<le> c \<and> c \<le> 122 then c - 32 else c) s"

definition ascii_lower :: "pystr \<Rightarrow> pystr" where
  "ascii_lower s = map (\<lambda>c. if 65 \<le> c \<and> c \<le> 90 then c + 32 else c) s"

section \<open>Regular expressions of \<open>_finalize_formatting\<close>\<close>

text \<open>
  Both patterns are sequences of single-character classes, some under a greedy star.
  \<open>re_match\<close> is the backtracking matcher anchored at the start of the string: a star
  first tries to take one more character, and gives it back when the rest of the pattern
  fails. It returns the number of characters matched.
\<close>

datatype ritem = One "pychar \<Rightarrow> bool" | Star "pychar \<Rightarrow> bool"

fun re_match :: "ritem list \<Rightarrow> pystr \<Rightarrow> nat option" where
  "re_match [] s = Some 0"
| "re_match (One p # r) [] = None"
| "re_match (One p # r) (c # cs) =
     (if p c then map_option Suc (re_match r cs) else None)"
| "re_match (Star p # r) [] = re_match r []"
| "re_match (Star p # r) (c # cs) =
     (if p c then
        (case re_match (Star p # r) cs of
           Some n \<Rightarrow> Some (Suc n)
         | None \<Rightarrow> re_match r (c # cs))
      else re_match r (c # cs))"

text \<open>
  \<open>re.sub(pattern, repl, s)\<close>: the leftmost match is replaced, the scan goes on after it.
  The counter is the number of characters of the last match still to be skipped. Both
  patterns of the converter match at least two characters, so the empty match (which
  \<open>re.sub\<close> treats specially) does not arise; it is copied through here.
\<close>

fun re_sub_from :: "ritem list \<Rightarrow> pystr \<Rightarrow> nat \<Rightarrow> pystr \<Rightarrow> pystr" where
  "re_sub_from pat repl k [] = []"
| "re_sub_from pat repl (Suc k) (c # cs) = re_sub_from pat repl k cs"
| "re_sub_from pat repl 0 (c # cs) =
     (case re_match pat (c # cs) of
        None \<Rightarrow> c # re_sub_from pat repl 0 cs
      | Some 0 \<Rightarrow> c # re_sub_from pat repl 0 cs
      | Some (Suc n) \<Rightarrow> repl @ re_sub_from pat repl n cs)"

definition re_sub :: "ritem list \<Rightarrow> pystr \<Rightarrow> pystr \<Rightarrow> pystr" where
  "re_sub pat repl s = re_sub_from pat repl 0 s"

text \<open>\<open>r"\n\s*\n\s*\n"\<close> and \<open>r"[ ]{2,}"\<close>.\<close>

definition blank_lines_re :: "ritem list" where
  "blank_lines_re =
     [One (\<lambda>c. c = NL), Star isspace, One (\<lambda>c. c = NL), Star isspace, One (\<lambda>c. c = NL)]"

definition spaces_re :: "ritem list" where
  "spaces_re = [One (\<lambda>c. c = SP), One (\<lambda>c. c = SP), Star (\<lambda>c. c = SP)]"

definition finalize_formatting :: "pystr \<Rightarrow> pystr" where
  "finalize_formatting text0 =
     (let text1 = re_sub blank_lines_re [NL, NL] text0;
          text2 = re_sub spaces_re [SP] text1;
          lines = map strip (split_nl text2);
          text3 = join [NL] lines
      in strip text3)"

section \<open>The document tree\<close>

text \<open>
  The tree BeautifulSoup builds: a string node, an element with its tag name, its
  attributes and its children, or a node that \<open>get_text\<close> leaves out (comment, doctype,
  declaration). The attribute dictionary is an association list with distinct keys. The
  soup itself is the list of the top-level nodes.
\<close>

datatype node =
    Text pystr
  | Comment pystr
  | Elem pystr "(pystr \<times> pystr) list" "node list"

text \<open>\<open>tag.get_text()\<close>: the strings below the node, in document order.\<close>

fun get_text :: "node \<Rightarrow> pystr" where
  "get_text (Text s) = s"
| "get_text (Comment s) = []"
| "get_text (Elem n a cs) = concat (map get_text cs)"

definition get_text_soup :: "node list \<Rightarrow> pystr" where
  "get_text_soup soup = concat (map get_text soup)"

text \<open>\<open>tag.descendants\<close>: every node below the tag, parents before children.\<close>

fun descendants :: "node \<Rightarrow> node list" where
  "descendants (Text s) = []"
| "descendants (Comment s) = []"
| "descendants (Elem n a cs) = concat (map (\<lambda>c. c # descendants c) cs)"

text \<open>\<open>tag.find_all(...)\<close> with the filter \<open>m\<close>, and \<open>soup.find_all(...)\<close>.\<close>

definition find_all :: "(node \<Rightarrow> bool) \<Rightarrow> node \<Rightarrow> node list" where
  "find_all m t = filter m (descendants t)"

definition find_all_soup :: "(node \<Rightarrow> bool) \<Rightarrow> node list \<Rightarrow> node list" where
  "find_all_soup m soup = filter m (concat (map (\<lambda>c. c # descendants c) soup))"

fun is_tag :: "pystr list \<Rightarrow> node \<Rightarrow> bool" where
  "is_tag names (Elem n a cs) = (n \<in> set names)"
| "is_tag names _ = False"

fun children :: "node \<Rightarrow> node list" where
  "children (Elem n a cs) = cs"
| "children _ = []"

fun attrs :: "node \<Rightarrow> (pystr \<times> pystr) list" where
  "attrs (Elem n a cs) = a"
| "attrs _ = []"

text \<open>The filter of \<open>find_all("a", href=True)\<close>.\<close>

definition is_link :: "node \<Rightarrow> bool" where
  "is_link t = (is_tag [py ''a''] t \<and> map_of (attrs t) (py ''href'') \<noteq> None)"

section \<open>A pass: \<open>for x in soup.find_all(...)\<close> with replacement\<close>

text \<open>
  What the body of a loop does to the element it is given: \<open>x.replace_with(s)\<close>,
  \<open>x.decompose()\<close>, or nothing.
\<close>

datatype action = ReplaceWith pystr | Decompose | Untouched

text \<open>
  \<open>find_all\<close> lists the matching elements first, parents before children, and the loop
  then visits them in that order. An element is therefore visited before anything below
  it has changed, and the body sees the subtree as it was when the loop started. Once an
  element is replaced or decomposed it has left the soup together with everything below
  it: what the loop later does to the matching elements inside it no longer shows in the
  soup. Below an element that stays, the loop goes on.
\<close>

fun for_each :: "(node \<Rightarrow> bool) \<Rightarrow> (node \<Rightarrow> action) \<Rightarrow> node \<Rightarrow> node list" where
  "for_each m body (Text s) = [Text s]"
| "for_each m body (Comment s) = [Comment s]"
| "for_each m body (Elem n a cs) =
     (if m (Elem n a cs) then
        (case body (Elem n a cs) of
           ReplaceWith s \<Rightarrow> [Text s]
         | Decompose \<Rightarrow> []
         | Untouched \<Rightarrow> [Elem n a (concat (map (for_each m body) cs))])
      else [Elem n a (concat (map (for_each m body) cs))])"

definition for_each_soup :: "(node \<Rightarrow> bool) \<Rightarrow> (node \<Rightarrow> action) \<Rightarrow> node list \<Rightarrow> node list" where
  "for_each_soup m body soup = concat (map (for_each m body) soup)"

section \<open>\<open>_process_headings\<close>\<close>

definition heading_map :: "(pystr \<times> pystr) list" where
  "heading_map =
     [(py ''h1'', py ''====== ''), (py ''h2'', py ''===== ''), (py ''h3'', py ''==== ''),
      (py ''h4'', py ''=== ''), (py ''h5'', py ''== ''), (py ''h6'', py ''= '')]"

definition heading_body :: "(pystr \<Rightarrow> pystr) \<Rightarrow> pystr \<Rightarrow> node \<Rightarrow> action" where
  "heading_body upper prefix heading =
     (let heading_text = strip (get_text heading)
      in if heading_text \<noteq> [] then
           ReplaceWith ([NL, NL] @ prefix @ upper heading_text @ [NL]
                        @ replace_sp_eq prefix @ [NL])
         else Untouched)"

definition heading_pass :: "(pystr \<Rightarrow> pystr) \<Rightarrow> node list \<Rightarrow> pystr \<times> pystr \<Rightarrow> node list" where
  "heading_pass upper soup tp =
     for_each_soup (is_tag [fst tp]) (heading_body upper (snd tp)) soup"

definition process_headings :: "(pystr \<Rightarrow> pystr) \<Rightarrow> node list \<Rightarrow> node list" where
  "process_headings upper soup = foldl (heading_pass upper) soup heading_map"

section \<open>\<open>_process_lists\<close>\<close>

text \<open>The bullet is U+2022.\<close>

definition bullet :: pystr where
  "bullet = [SP, SP, 8226, SP]"

text \<open>The inner loops, with \<open>list_items\<close> as the accumulator.\<close>

fun ul_items :: "node list \<Rightarrow> pystr list \<Rightarrow> pystr list" where
  "ul_items [] list_items = list_items"
| "ul_items (li # lis) list_items =
     (let item_text = strip (get_text li)
      in if item_text \<noteq> [] then ul_items lis (list_items @ [bullet @ item_text])
         else ul_items lis list_items)"

fun ol_items :: "nat \<Rightarrow> node list \<Rightarrow> pystr list \<Rightarrow> pystr list" where
  "ol_items i [] list_items = list_items"
| "ol_items i (li # lis) list_items =
     (let item_text = strip (get_text li)
      in if item_text \<noteq> [] then
           ol_items (i + 1) lis (list_items @ [[SP, SP] @ str_nat i @ py ''. '' @ item_text])
         else ol_items (i + 1) lis list_items)"

definition ul_body :: "node \<Rightarrow> action" where
  "ul_body ul =
     (let list_items = ul_items (find_all (is_tag [py ''li'']) ul) []
      in if list_items \<noteq> [] then ReplaceWith ([NL] @ join [NL] list_items @ [NL])
         else Decompose)"

definition ol_body :: "node \<Rightarrow> action" where
  "ol_body ol =
     (let list_items = ol_items 1 (find_all (is_tag [py ''li'']) ol) []
      in if list_items \<noteq> [] then ReplaceWith ([NL] @ join [NL] list_items @ [NL])
         else Decompose)"

text \<open>The two loops of \<open>_process_lists\<close>, the unordered lists first.\<close>

definition process_ul :: "node list \<Rightarrow> node list" where
  "process_ul soup = for_each_soup (is_tag [py ''ul'']) ul_body soup"

definition process_ol :: "node list \<Rightarrow> node list" where
  "process_ol soup = for_each_soup (is_tag [py ''ol'']) ol_body soup"

definition process_lists :: "node list \<Rightarrow> node list" where
  "process_lists soup = process_ol (process_ul soup)"

section \<open>\<open>_process_tables\<close>\<close>

fun row_cells :: "node list \<Rightarrow> pystr list \<Rightarrow> pystr list" where
  "row_cells [] acc = acc"
| "row_cells (cell # cells) acc = row_cells cells (acc @ [strip (get_text cell)])"

fun table_rows :: "node list \<Rightarrow> pystr list \<Rightarrow> pystr list" where
  "table_rows [] rows = rows"
| "table_rows (tr # trs) rows =
     (let cells = row_cells (find_all (is_tag [py ''td'', py ''th'']) tr) []
      in if cells \<noteq> [] then table_rows trs (rows @ [join (py '' | '') cells])
         else table_rows trs rows)"

definition table_body :: "node \<Rightarrow> action" where
  "table_body table =
     (let rows = table_rows (find_all (is_tag [py ''tr'']) table) []
      in if rows \<noteq> [] then
           ReplaceWith ([NL] @ join [NL] (map (\<lambda>row. [SP, SP] @ row) rows) @ [NL])
         else Decompose)"

definition process_tables :: "node list \<Rightarrow> node list" where
  "process_tables soup = for_each_soup (is_tag [py ''table'']) table_body soup"

section \<open>\<open>_process_links\<close>\<close>

datatype py_error = TypeError

text \<open>
  The body of the loop. \<open>find_all("a", href=True)\<close> yields only elements that have the
  attribute, so \<open>link["href"]\<close> is there for every element the loop visits.
\<close>

definition link_body :: "node \<Rightarrow> action" where
  "link_body link =
     (case map_of (attrs link) (py ''href'') of
        None \<Rightarrow> Untouched
      | Some href \<Rightarrow>
          (let link_text = strip (get_text link);
               link_url = strip href
           in if link_text \<noteq> [] \<and> link_url \<noteq> [] then
                (if link_text \<noteq> link_url then
                   ReplaceWith (link_text @ py '' ['' @ link_url @ py '']'')
                 else ReplaceWith link_url)
              else if link_text \<noteq> [] then ReplaceWith link_text
              else if link_url \<noteq> [] then ReplaceWith link_url
              else Decompose))"

text \<open>
  \<open>decompose()\<close> wipes the element and everything below it, attribute dictionaries
  included. The loop still visits the links that were below a decomposed link, since
  \<open>find_all\<close> listed them beforehand, and \<open>link["href"]\<close> on a wiped element raises
  \<open>TypeError\<close>. This happens wherever a link that the body decomposes has another link
  with a destination below it, also inside a link that was replaced earlier. (The other
  loops read a wiped element only through \<open>get_text\<close> and \<open>find_all\<close>, which find nothing
  in it, and decompose it once more.)
\<close>

fun wiped_link_visited :: "node \<Rightarrow> bool" where
  "wiped_link_visited (Text s) = False"
| "wiped_link_visited (Comment s) = False"
| "wiped_link_visited (Elem n a cs) =
     ((is_link (Elem n a cs) \<and> link_body (Elem n a cs) = Decompose
         \<and> find_all is_link (Elem n a cs) \<noteq> [])
      \<or> list_ex wiped_link_visited cs)"

definition process_links :: "node list \<Rightarrow> py_error + node list" where
  "process_links soup =
     (if list_ex wiped_link_visited soup then Inl TypeError
      else Inr (for_each_soup is_link link_body soup))"

section \<open>\<open>_process_paragraphs\<close>\<close>

definition p_body :: "node \<Rightarrow> action" where
  "p_body p =
     (let p_text = strip (get_text p)
      in if p_text \<noteq> [] then ReplaceWith ([NL] @ p_text @ [NL]) else Decompose)"

definition structural_tags :: "pystr list" where
  "structural_tags =
     [py ''p'', py ''h1'', py ''h2'', py ''h3'', py ''h4'', py ''h5'', py ''h6'',
      py ''ul'', py ''ol'', py ''table'']"

definition div_body :: "node \<Rightarrow> action" where
  "div_body div_tag =
     (let div_text = strip (get_text div_tag)
      in if div_text \<noteq> [] then
           (if \<not> list_ex (is_tag structural_tags) (children div_tag) then
              ReplaceWith ([NL] @ div_text @ [NL])
            else Untouched)
         else Untouched)"

text \<open>The three loops of \<open>_process_paragraphs\<close>.\<close>

definition process_br :: "node list \<Rightarrow> node list" where
  "process_br soup = for_each_soup (is_tag [py ''br'']) (\<lambda>br. ReplaceWith [NL]) soup"

definition process_p :: "node list \<Rightarrow> node list" where
  "process_p soup = for_each_soup (is_tag [py ''p'']) p_body soup"

definition process_divs :: "node list \<Rightarrow> node list" where
  "process_divs soup = for_each_soup (is_tag [py ''div'']) div_body soup"

definition process_paragraphs :: "node list \<Rightarrow> node list" where
  "process_paragraphs soup = process_divs (process_p (process_br soup))"

section \<open>\<open>convert\<close>\<close>

text \<open>The body of \<open>convert\<close> from the parsed soup on.\<close>

definition convert_soup :: "(pystr \<Rightarrow> pystr) \<Rightarrow> node list \<Rightarrow> py_error + pystr" where
  "convert_soup upper soup0 =
     (let soup1 = for_each_soup
                    (is_tag [py ''script'', py ''style'', py ''meta'', py ''link''])
                    (\<lambda>unwanted. Decompose) soup0;
          soup2 = process_headings upper soup1;
          soup3 = process_lists soup2;
          soup4 = process_tables soup3
      in case process_links soup4 of
           Inl e \<Rightarrow> Inl e
         | Inr soup5 \<Rightarrow>
             (let soup6 = process_paragraphs soup5;
                  text = finalize_formatting (get_text_soup soup6)
              in Inr (strip text)))"

text \<open>
  \<open>html.unescape\<close> and the parser (\<open>BeautifulSoup(_, "html.parser")\<close>) are library code:
  they are parameters. The argument is \<open>None\<close> or a string.
\<close>

definition convert ::
  "(pystr \<Rightarrow> pystr) \<Rightarrow> (pystr \<Rightarrow> node list) \<Rightarrow> (pystr \<Rightarrow> pystr) \<Rightarrow> pystr option
     \<Rightarrow> py_error + pystr" where
  "convert unescape parse upper html_content =
     (case html_content of
        None \<Rightarrow> Inr []
      | Some html \<Rightarrow>
          if html = [] then Inr []
          else convert_soup upper (parse (unescape html)))"

section \<open>\<open>extract_attachments_info\<close>\<close>

record attachment =
  name :: pystr
  url :: pystr

definition attachment_keywords :: "pystr list" where
  "attachment_keywords =
     [py ''attachment'',
      [1074, 1083, 1086, 1078, 1077, 1085, 1080, 1077],
      [1092, 1072, 1081, 1083],
      py ''download'',
      [1089, 1082, 1072, 1095, 1072, 1090, 1100]]"

text \<open>The loop over the links, with \<open>attachments\<close> as the accumulator.\<close>

fun scan_links :: "(pystr \<Rightarrow> pystr) \<Rightarrow> node list \<Rightarrow> attachment list \<Rightarrow> attachment list" where
  "scan_links lower [] attachments = attachments"
| "scan_links lower (link # links) attachments =
     (case map_of (attrs link) (py ''href'') of
        None \<Rightarrow> scan_links lower links attachments
      | Some href \<Rightarrow>
          (let text = lower (strip (get_text link))
           in if list_ex (\<lambda>keyword. contains keyword text) attachment_keywords then
                scan_links lower links
                  (attachments @ [\<lparr>name = strip (get_text link), url = href\<rparr>])
              else scan_links lower links attachments))"

definition extract_soup :: "(pystr \<Rightarrow> pystr) \<Rightarrow> node list \<Rightarrow> attachment list" where
  "extract_soup lower soup = scan_links lower (find_all_soup is_link soup) []"

definition extract_attachments_info ::
  "(pystr \<Rightarrow> node list) \<Rightarrow> (pystr \<Rightarrow> pystr) \<Rightarrow> pystr option \<Rightarrow> attachment list" where
  "extract_attachments_info parse lower html_content =
     (case html_content of
        None \<Rightarrow> []
      | Some html \<Rightarrow> if html = [] then [] else extract_soup lower (parse html))"

section \<open>The properties, as the specification words them\<close>

text \<open>The raw destination of a link.\<close>

definition href_value :: "node \<Rightarrow> pystr" where
  "href_value t = (case map_of (attrs t) (py ''href'') of Some h \<Rightarrow> h | None \<Rightarrow> [])"

text \<open>The trimmed visible text, lower-cased, contains one of the keywords.\<close>

definition mentions_attachment :: "(pystr \<Rightarrow> pystr) \<Rightarrow> node \<Rightarrow> bool" where
  "mentions_attachment lower t =
     (\<exists>kw \<in> set attachment_keywords. contains kw (lower (strip (get_text t))))"

text \<open>
  One pair for each link with a destination that mentions an attachment, in document
  order, nothing removed.
\<close>

definition attachments_spec :: "(pystr \<Rightarrow> pystr) \<Rightarrow> node list \<Rightarrow> attachment list" where
  "attachments_spec lower soup =
     map (\<lambda>t. \<lparr>name = strip (get_text t), url = href_value t\<rparr>)
       (filter (mentions_attachment lower) (find_all_soup is_link soup))"

text \<open>No run of two or more consecutive spaces.\<close>

fun no_double_space :: "pystr \<Rightarrow> bool" where
  "no_double_space (a # b # cs) = (\<not> (a = SP \<and> b = SP) \<and> no_double_space (b # cs))"
| "no_double_space cs = True"

text \<open>No run of three or more consecutive newlines.\<close>

fun no_triple_newline :: "pystr \<Rightarrow> bool" where
  "no_triple_newline (a # b # c # cs) =
     (\<not> (a = NL \<and> b = NL \<and> c = NL) \<and> no_triple_newline (b # c # cs))"
| "no_triple_newline cs = True"

text \<open>No line (a piece between newlines) with leading or trailing whitespace.\<close>

definition line_trimmed :: "pystr \<Rightarrow> bool" where
  "line_trimmed l = (l = [] \<or> (\<not> isspace (hd l) \<and> \<not> isspace (last l)))"

definition lines_trimmed :: "pystr \<Rightarrow> bool" where
  "lines_trimmed s = list_all line_trimmed (split_nl s)"

text \<open>The text neither begins nor ends with a newline.\<close>

definition no_outer_newline :: "pystr \<Rightarrow> bool" where
  "no_outer_newline s = (s = [] \<or> (hd s \<noteq> NL \<and> last s \<noteq> NL))"

text \<open>No newline is followed by whitespace other than a newline.\<close>

fun no_space_after_newline :: "pystr \<Rightarrow> bool" where
  "no_space_after_newline (a # b # cs) =
     (\<not> (a = NL \<and> isspace b \<and> b \<noteq> NL) \<and> no_space_after_newline (b # cs))"
| "no_space_after_newline cs = True"

text \<open>
  The lines of an ordered list: the \<open>li\<close> elements numbered from 1 in the order found,
  then those with empty trimmed text left out.
\<close>

definition ol_lines :: "node list \<Rightarrow> pystr list" where
  "ol_lines lis =
     map (\<lambda>(i, li). [SP, SP] @ str_nat i @ py ''. '' @ strip (get_text li))
       (filter (\<lambda>(i, li). strip (get_text li) \<noteq> []) (enumerate 1 lis))"

text \<open>The lines of an unordered list: one bullet line for each non-empty item.\<close>

definition ul_lines :: "node list \<Rightarrow> pystr list" where
  "ul_lines lis =
     map (\<lambda>li. bullet @ strip (get_text li))
       (filter (\<lambda>li. strip (get_text li) \<noteq> []) lis)"

text \<open>
  The marker of a heading of the given level: \<open>=\<close> signs, six for level 1 down to one
  for level 6, and a space. The underline: \<open>=\<close> signs over the width of the marker.
\<close>

definition marker :: "nat \<Rightarrow> pystr" where
  "marker level = replicate (7 - level) 61 @ [SP]"

definition underline :: "nat \<Rightarrow> pystr" where
  "underline level = replicate (8 - level) 61"

text \<open>
  The lines of a table: for each row that has a cell, the trimmed texts of its cells
  joined with \<open> | \<close>.
\<close>

definition table_lines :: "node \<Rightarrow> pystr list" where
  "table_lines table =
     map (\<lambda>tr. join (py '' | '')
                  (map (\<lambda>cell. strip (get_text cell)) (find_all (is_tag [py ''td'', py ''th'']) tr)))
       (filter (\<lambda>tr. find_all (is_tag [py ''td'', py ''th'']) tr \<noteq> [])
          (find_all (is_tag [py ''tr'']) table))"

section \<open>Evaluating concrete inputs\<close>

lemmas eval_defs = py_def NL_def SP_def isspace_def strip_def

lemmas tree_defs = for_each_soup_def find_all_def find_all_soup_def get_text_soup_def
lemmas final_defs = finalize_formatting_def re_sub_def blank_lines_re_def spaces_re_def

lemmas pass_defs = convert_soup_def process_headings_def heading_pass_def heading_map_def
  process_lists_def process_ul_def process_ol_def ol_body_def ul_body_def
  process_tables_def table_body_def process_links_def is_link_def link_body_def
  process_paragraphs_def process_br_def process_p_def process_divs_def p_body_def div_body_def structural_tags_def
  heading_body_def replace_sp_eq_def bullet_def
lemma replicate_numeral: "replicate (numeral v) x = x # replicate (numeral v - 1) x"
  by (simp add: numeral_eq_Suc)

section \<open>Attachment references\<close>

lemma scan_links_spec:
  "\<forall>t \<in> set links. is_link t \<Longrightarrow>
   scan_links lower links acc =
     acc @ map (\<lambda>t. \<lparr>name = strip (get_text t), url = href_value t\<rparr>)
             (filter (mentions_attachment lower) links)"
proof (induction links arbitrary: acc)
  case Nil
  then show ?case by simp
next
  case (Cons t ts)
  from Cons.prems have "is_link t" by simp
  then obtain h where h: "map_of (attrs t) (py ''href'') = Some h"
    by (auto simp: is_link_def)
  from Cons.prems have rest: "\<forall>t \<in> set ts. is_link t" by simp
  show ?case
    using h Cons.IH [OF rest]
    by (simp add: href_value_def mentions_attachment_def list_ex_iff Let_def)
qed

lemma find_all_soup_links: "\<forall>t \<in> set (find_all_soup is_link soup). is_link t"
  by (simp add: find_all_soup_def)

text \<open>
  Claim C8. For every input, \<open>extract_attachments_info\<close> returns, in document order and
  without deduplication, one pair for each link that has a destination attribute and
  whose trimmed text, lower-cased, contains one of the five keywords; the name is the
  trimmed text as written, the url the raw attribute value; links without a destination
  are not looked at. A document that is one link to \<open>f.pdf\<close> with the text \<open>Download file\<close>
  gives the one entry with that name and that url.
\<close>

theorem C8_extract_attachments:
  "(html \<noteq> [] \<longrightarrow>
      extract_attachments_info parse lower (Some html) = attachments_spec lower (parse html))
   \<and> (html \<noteq> [] \<and>
        parse html = [Elem (py ''a'') [(py ''href'', py ''f.pdf'')] [Text (py ''Download file'')]]
      \<longrightarrow> extract_attachments_info parse ascii_lower (Some html)
            = [\<lparr>name = py ''Download file'', url = py ''f.pdf''\<rparr>])
   \<and> (\<forall>t \<in> set (find_all_soup is_link (parse html)). map_of (attrs t) (py ''href'') \<noteq> None)"
proof -
  have gen: "extract_soup lw soup = attachments_spec lw soup" for lw soup
    unfolding extract_soup_def attachments_spec_def
    using scan_links_spec [OF find_all_soup_links, of lw soup "[]"] by simp
  have ex: "attachments_spec ascii_lower
              [Elem (py ''a'') [(py ''href'', py ''f.pdf'')] [Text (py ''Download file'')]]
            = [\<lparr>name = py ''Download file'', url = py ''f.pdf''\<rparr>]"
    by (simp add: attachments_spec_def find_all_soup_def is_link_def mentions_attachment_def
          attachment_keywords_def href_value_def ascii_lower_def eval_defs)
  show ?thesis
    using gen ex find_all_soup_links
    by (auto simp: extract_attachments_info_def is_link_def)
qed

theorem C8_extract_attachments_witness:
  "py ''x'' \<noteq> []
   \<and> extract_attachments_info
     (\<lambda>h. [Elem (py ''a'') [(py ''href'', py ''f.pdf'')] [Text (py ''Download file'')]])
     ascii_lower (Some (py ''x''))
   = [\<lparr>name = py ''Download file'', url = py ''f.pdf''\<rparr>]"
proof -
  have ne: "py ''x'' \<noteq> []"
    by (simp add: py_def)
  from C8_extract_attachments
    [of "py ''x''" "\<lambda>h. [Elem (py ''a'') [(py ''href'', py ''f.pdf'')] [Text (py ''Download file'')]]" ascii_lower]
  have "py ''x'' \<noteq> [] \<longrightarrow>
      extract_attachments_info
       (\<lambda>h. [Elem (py ''a'') [(py ''href'', py ''f.pdf'')] [Text (py ''Download file'')]])
       ascii_lower (Some (py ''x''))
      = [\<lparr>name = py ''Download file'', url = py ''f.pdf''\<rparr>]"
    by blast
  with ne show ?thesis by blast
qed

section \<open>Finalization\<close>

lemma isspace_NL: "isspace NL"
  by (simp add: isspace_def NL_def)

lemma strip_trimmed: "line_trimmed l \<Longrightarrow> strip l = l"
proof (cases l)
  case Nil
  then show ?thesis by (simp add: strip_def)
next
  case (Cons c cs)
  assume "line_trimmed l"
  with Cons have h: "\<not> isspace c" and t: "\<not> isspace (last l)"
    by (auto simp: line_trimmed_def)
  from h Cons have 1: "dropWhile isspace l = l" by simp
  from Cons have "rev l \<noteq> []" by simp
  then obtain d ds where r: "rev l = d # ds" by (cases "rev l") auto
  then have "d = last l" using Cons by (metis hd_rev list.sel(1))
  with t have "dropWhile isspace (d # ds) = d # ds" by simp
  then have 2: "dropWhile isspace (rev l) = rev l" by (simp only: r)
  show ?thesis by (simp add: strip_def 1 2)
qed

lemma split_nl_nonempty: "split_nl s \<noteq> []"
  by (induction s) (auto split: list.splits)

lemma join_split_nl: "join [NL] (split_nl s) = s"
proof (induction s)
  case Nil
  then show ?case by simp
next
  case (Cons c cs)
  obtain l ls where sp: "split_nl cs = l # ls"
    using split_nl_nonempty [of cs] by (cases "split_nl cs") auto
  show ?case
  proof (cases "c = NL")
    case True
    with Cons sp show ?thesis by simp
  next
    case False
    with Cons sp show ?thesis by (cases ls) auto
  qed
qed

lemma re_sub_from_no_match:
  "(\<And>n. re_match pat (drop n s) = None) \<Longrightarrow> re_sub_from pat repl 0 s = s"
proof (induction s)
  case Nil
  then show ?case by simp
next
  case (Cons c cs)
  from Cons.prems [of 0] have m: "re_match pat (c # cs) = None" by simp
  have "\<And>n. re_match pat (drop n cs) = None"
    using Cons.prems [of "Suc n" for n] by simp
  then have "re_sub_from pat repl 0 cs = cs" by (rule Cons.IH)
  with m show ?case by simp
qed

lemma no_double_space_drop: "no_double_space s \<Longrightarrow> no_double_space (drop n s)"
proof (induction n arbitrary: s)
  case 0
  then show ?case by simp
next
  case (Suc n)
  show ?case
  proof (cases s)
    case Nil
    then show ?thesis by simp
  next
    case (Cons a t)
    with Suc.prems have "no_double_space t" by (cases t) auto
    with Suc.IH Cons show ?thesis by simp
  qed
qed

lemma no_triple_newline_drop: "no_triple_newline s \<Longrightarrow> no_triple_newline (drop n s)"
proof (induction n arbitrary: s)
  case 0
  then show ?case by simp
next
  case (Suc n)
  show ?case
  proof (cases s)
    case Nil
    then show ?thesis by simp
  next
    case (Cons a t)
    with Suc.prems have "no_triple_newline t"
      by (cases t; cases "tl t") auto
    with Suc.IH Cons show ?thesis by simp
  qed
qed

lemma no_space_after_newline_drop:
  "no_space_after_newline s \<Longrightarrow> no_space_after_newline (drop n s)"
proof (induction n arbitrary: s)
  case 0
  then show ?case by simp
next
  case (Suc n)
  show ?case
  proof (cases s)
    case Nil
    then show ?thesis by simp
  next
    case (Cons a t)
    with Suc.prems have "no_space_after_newline t" by (cases t) auto
    with Suc.IH Cons show ?thesis by simp
  qed
qed

lemma spaces_re_no_match: "no_double_space t \<Longrightarrow> re_match spaces_re t = None"
  by (cases t; cases "tl t") (auto simp: spaces_re_def)

lemma blank_lines_re_no_match:
  assumes "no_space_after_newline t" and "no_triple_newline t"
  shows "re_match blank_lines_re t = None"
proof (cases t)
  case Nil
  then show ?thesis by (simp add: blank_lines_re_def)
next
  case t1: (Cons a u)
  show ?thesis
  proof (cases u)
    case Nil
    with t1 show ?thesis by (simp add: blank_lines_re_def isspace_NL)
  next
    case u1: (Cons b v)
    show ?thesis
    proof (cases v)
      case Nil
      with t1 u1 show ?thesis
        by (auto simp: blank_lines_re_def isspace_NL split: option.splits)
    next
      case v1: (Cons c w)
      show ?thesis
      proof (cases "a = NL")
        case False
        with t1 show ?thesis by (simp add: blank_lines_re_def)
      next
        case aNL: True
        show ?thesis
        proof (cases "isspace b")
          case False
          then have "b \<noteq> NL" using isspace_NL by auto
          with False aNL t1 u1 show ?thesis by (simp add: blank_lines_re_def)
        next
          case True
          with assms(1) t1 u1 aNL have bNL: "b = NL" by auto
          with assms(2) t1 u1 v1 aNL have cNL: "c \<noteq> NL" by auto
          with assms(1) t1 u1 v1 bNL have cws: "\<not> isspace c" by auto
          from t1 u1 v1 aNL bNL cNL cws show ?thesis
            by (simp add: blank_lines_re_def isspace_NL)
        qed
      qed
    qed
  qed
qed

lemma lines_no_space_after_newline:
  "list_all line_trimmed (tl (split_nl s)) \<Longrightarrow> no_space_after_newline s"
proof (induction s)
  case Nil
  then show ?case by simp
next
  case (Cons a rest)
  obtain l ls where sp: "split_nl rest = l # ls"
    using split_nl_nonempty [of rest] by (cases "split_nl rest") auto
  show ?case
  proof (cases "a = NL")
    case True
    with Cons.prems sp have lt: "line_trimmed l" and tl: "list_all line_trimmed ls" by auto
    from tl sp Cons.IH have ih: "no_space_after_newline rest" by simp
    show ?thesis
    proof (cases rest)
      case Nil
      then show ?thesis by simp
    next
      case (Cons b cs)
      have "b \<noteq> NL \<Longrightarrow> \<not> isspace b"
      proof -
        assume "b \<noteq> NL"
        with Cons sp have "hd l = b \<and> l \<noteq> []" by (auto split: list.splits)
        with lt show ?thesis by (auto simp: line_trimmed_def)
      qed
      with ih Cons show ?thesis by auto
    qed
  next
    case False
    with Cons.prems sp have "list_all line_trimmed ls" by simp
    with sp Cons.IH have ih: "no_space_after_newline rest" by simp
    with False show ?thesis by (cases rest) auto
  qed
qed

lemma hd_split_nl:
  "s \<noteq> [] \<Longrightarrow> hd s \<noteq> NL \<Longrightarrow> hd (split_nl s) \<noteq> [] \<and> hd (hd (split_nl s)) = hd s"
  by (cases s) (auto split: list.splits)

lemma last_split_nl:
  "s \<noteq> [] \<Longrightarrow> last s \<noteq> NL \<Longrightarrow> last (split_nl s) \<noteq> [] \<and> last (last (split_nl s)) = last s"
proof (induction s)
  case Nil
  then show ?case by simp
next
  case (Cons c cs)
  obtain l ls where sp: "split_nl cs = l # ls"
    using split_nl_nonempty [of cs] by (cases "split_nl cs") auto
  show ?case
  proof (cases "cs = []")
    case True
    with Cons.prems show ?thesis by simp
  next
    case False
    with Cons have ih: "last (split_nl cs) \<noteq> [] \<and> last (last (split_nl cs)) = last cs" by simp
    show ?thesis
    proof (cases "c = NL")
      case True
      with ih sp False show ?thesis by simp
    next
      case cn: False
      show ?thesis
      proof (cases ls)
        case Nil
        with ih sp False cn show ?thesis by simp
      next
        case (Cons m ms)
        with ih sp False cn show ?thesis by simp
      qed
    qed
  qed
qed

lemma whole_trimmed:
  assumes "lines_trimmed s" and "no_outer_newline s"
  shows "line_trimmed s"
proof (cases "s = []")
  case True
  then show ?thesis by (simp add: line_trimmed_def)
next
  case False
  with assms(2) have h: "hd s \<noteq> NL" and l: "last s \<noteq> NL"
    by (auto simp: no_outer_newline_def)
  have ne: "split_nl s \<noteq> []" by (rule split_nl_nonempty)
  from assms(1) ne have a: "line_trimmed (hd (split_nl s))" and b: "line_trimmed (last (split_nl s))"
    by (auto simp: lines_trimmed_def list_all_iff)
  from hd_split_nl [OF False h] a have "\<not> isspace (hd s)"
    by (auto simp: line_trimmed_def)
  moreover from last_split_nl [OF False l] b have "\<not> isspace (last s)"
    by (auto simp: line_trimmed_def)
  ultimately show ?thesis by (simp add: line_trimmed_def)
qed

text \<open>
  Claim C5, as amended. A text with no run of two or more spaces, no run of three or more
  newlines, no line with leading or trailing whitespace, and that neither begins nor ends
  with a newline, is returned unchanged by \<open>_finalize_formatting\<close>.
\<close>

theorem C5_finalize_fixed:
  assumes "no_double_space s" and "no_triple_newline s" and "lines_trimmed s"
    and "no_outer_newline s"
  shows "finalize_formatting s = s"
proof -
  from assms(3) have "list_all line_trimmed (tl (split_nl s))"
    using split_nl_nonempty [of s] by (cases "split_nl s") (auto simp: lines_trimmed_def)
  then have nsp: "no_space_after_newline s" by (rule lines_no_space_after_newline)
  have 1: "re_sub blank_lines_re [NL, NL] s = s"
    unfolding re_sub_def
    by (rule re_sub_from_no_match)
       (simp add: blank_lines_re_no_match no_space_after_newline_drop no_triple_newline_drop
          nsp assms(2))
  have 2: "re_sub spaces_re [SP] s = s"
    unfolding re_sub_def
    by (rule re_sub_from_no_match)
       (simp add: spaces_re_no_match no_double_space_drop assms(1))
  have 3: "map strip (split_nl s) = split_nl s"
    using assms(3) by (auto simp: lines_trimmed_def list_all_iff strip_trimmed intro: map_idI)
  have 4: "strip s = s"
    using whole_trimmed [OF assms(3,4)] by (rule strip_trimmed)
  show ?thesis
    by (simp add: finalize_formatting_def 1 2 3 4 join_split_nl)
qed


theorem C5_finalize_fixed_witness:
  "no_double_space (py ''a b'' @ [NL, NL] @ py ''c'')
   \<and> no_triple_newline (py ''a b'' @ [NL, NL] @ py ''c'')
   \<and> lines_trimmed (py ''a b'' @ [NL, NL] @ py ''c'')
   \<and> no_outer_newline (py ''a b'' @ [NL, NL] @ py ''c'')
   \<and> finalize_formatting (py ''a b'' @ [NL, NL] @ py ''c'') = py ''a b'' @ [NL, NL] @ py ''c''"
proof -
  have 1: "no_double_space (py ''a b'' @ [NL, NL] @ py ''c'')"
    by (simp add: eval_defs)
  have 2: "no_triple_newline (py ''a b'' @ [NL, NL] @ py ''c'')"
    by (simp add: eval_defs)
  have 3: "lines_trimmed (py ''a b'' @ [NL, NL] @ py ''c'')"
    by (simp add: lines_trimmed_def line_trimmed_def eval_defs)
  have 4: "no_outer_newline (py ''a b'' @ [NL, NL] @ py ''c'')"
    by (simp add: no_outer_newline_def eval_defs)
  from 1 2 3 4 C5_finalize_fixed [OF 1 2 3 4] show ?thesis by blast
qed

text \<open>
  The claim as written leaves the last condition out. The text \<open>a\<close> followed by one
  newline meets its three conditions, and the final \<open>text.strip()\<close> removes the newline.
\<close>

theorem C5_trailing_newline_counterexample:
  "no_double_space (py ''a'' @ [NL])
   \<and> no_triple_newline (py ''a'' @ [NL])
   \<and> lines_trimmed (py ''a'' @ [NL])
   \<and> finalize_formatting (py ''a'' @ [NL]) = py ''a''
   \<and> finalize_formatting (py ''a'' @ [NL]) \<noteq> py ''a'' @ [NL]"
  by (simp add: lines_trimmed_def line_trimmed_def finalize_formatting_def re_sub_def
        blank_lines_re_def spaces_re_def eval_defs)

section \<open>Lists\<close>

lemma ol_items_enumerate:
  "ol_items i lis acc =
     acc @ map (\<lambda>(i, li). [SP, SP] @ str_nat i @ py ''. '' @ strip (get_text li))
             (filter (\<lambda>(i, li). strip (get_text li) \<noteq> []) (enumerate i lis))"
  by (induction lis arbitrary: i acc) (simp_all add: Let_def)

lemma ul_items_filter:
  "ul_items lis acc =
     acc @ map (\<lambda>li. bullet @ strip (get_text li))
             (filter (\<lambda>li. strip (get_text li) \<noteq> []) lis)"
  by (induction lis arbitrary: acc) (simp_all add: Let_def)

lemma ol_lines_empty:
  "(ol_lines lis = []) = (\<forall>li \<in> set lis. strip (get_text li) = [])"
proof -
  have "(ol_lines lis = []) = (\<forall>p \<in> set (enumerate 1 lis). strip (get_text (snd p)) = [])"
    by (auto simp: ol_lines_def filter_empty_conv)
  also have "\<dots> = (\<forall>li \<in> set (map snd (enumerate 1 lis)). strip (get_text li) = [])"
    by (simp only: set_map ball_simps)
  finally show ?thesis by simp
qed

lemma ul_lines_empty:
  "(ul_lines lis = []) = (\<forall>li \<in> set lis. strip (get_text li) = [])"
  by (auto simp: ul_lines_def filter_empty_conv)

text \<open>
  Claim C1, as amended. For every ordered list the second loop of \<open>_process_lists\<close>
  visits, the indices 1, 2, ... go to all \<open>li\<close> elements found under the list, empty or
  not, and an item whose trimmed text is empty is skipped after it got its index, so it
  still uses up a number. The list is replaced by the lines \<open>  i. text\<close> between two
  newlines; a list with no non-empty item is removed with no replacement. The pass turns
  the list of the items \<open>x\<close> and \<open>y\<close> into the lines \<open>  1. x\<close> and \<open>  2. y\<close>, and the list
  of \<open>x\<close>, an empty item and \<open>y\<close> into \<open>  1. x\<close> and \<open>  3. y\<close>. \<open>convert\<close> returns the lines
  \<open>1. x\<close> and \<open>2. y\<close> for the first: finalization strips every line.
\<close>

theorem C1_ordered_lists:
  "process_ol [Elem (py ''ol'') a cs] =
     (if ol_lines (find_all (is_tag [py ''li'']) (Elem (py ''ol'') a cs)) = [] then []
      else [Text ([NL] @ join [NL] (ol_lines (find_all (is_tag [py ''li'']) (Elem (py ''ol'') a cs)))
                  @ [NL])])
   \<and> ((ol_lines (find_all (is_tag [py ''li'']) (Elem (py ''ol'') a cs)) = [])
        = (\<forall>li \<in> set (find_all (is_tag [py ''li'']) (Elem (py ''ol'') a cs)).
             strip (get_text li) = []))
   \<and> process_lists
        [Elem (py ''ol'') []
           [Elem (py ''li'') [] [Text (py ''x'')], Elem (py ''li'') [] [Text (py ''y'')]]]
      = [Text ([NL] @ py ''  1. x'' @ [NL] @ py ''  2. y'' @ [NL])]
   \<and> process_lists
        [Elem (py ''ol'') []
           [Elem (py ''li'') [] [Text (py ''x'')], Elem (py ''li'') [] [Text (py '' '')],
            Elem (py ''li'') [] [Text (py ''y'')]]]
      = [Text ([NL] @ py ''  1. x'' @ [NL] @ py ''  3. y'' @ [NL])]
   \<and> convert_soup upper
        [Elem (py ''ol'') []
           [Elem (py ''li'') [] [Text (py ''x'')], Elem (py ''li'') [] [Text (py ''y'')]]]
      = Inr (py ''1. x'' @ [NL] @ py ''2. y'')"
proof -
  have gen: "process_ol [Elem (py ''ol'') a cs] =
     (if ol_lines (find_all (is_tag [py ''li'']) (Elem (py ''ol'') a cs)) = [] then []
      else [Text ([NL] @ join [NL] (ol_lines (find_all (is_tag [py ''li'']) (Elem (py ''ol'') a cs)))
                  @ [NL])])"
    using ol_items_enumerate [of 1 "find_all (is_tag [py ''li'']) (Elem (py ''ol'') a cs)" "[]"]
    by (simp add: process_ol_def for_each_soup_def ol_body_def ol_lines_def Let_def)
  have ex1: "process_lists
        [Elem (py ''ol'') []
           [Elem (py ''li'') [] [Text (py ''x'')], Elem (py ''li'') [] [Text (py ''y'')]]]
      = [Text ([NL] @ py ''  1. x'' @ [NL] @ py ''  2. y'' @ [NL])]"
    by (simp add: process_lists_def process_ul_def process_ol_def ol_body_def tree_defs
          str_nat.simps eval_defs)
  have ex2: "process_lists
        [Elem (py ''ol'') []
           [Elem (py ''li'') [] [Text (py ''x'')], Elem (py ''li'') [] [Text (py '' '')],
            Elem (py ''li'') [] [Text (py ''y'')]]]
      = [Text ([NL] @ py ''  1. x'' @ [NL] @ py ''  3. y'' @ [NL])]"
    by (simp add: process_lists_def process_ul_def process_ol_def ol_body_def tree_defs
          str_nat.simps eval_defs)
  have ex3: "convert_soup upper
        [Elem (py ''ol'') []
           [Elem (py ''li'') [] [Text (py ''x'')], Elem (py ''li'') [] [Text (py ''y'')]]]
      = Inr (py ''1. x'' @ [NL] @ py ''2. y'')"
    by (simp add: convert_soup_def process_headings_def heading_pass_def heading_map_def
          process_lists_def process_ul_def process_ol_def ol_body_def
          process_tables_def process_links_def is_link_def
          process_paragraphs_def process_br_def process_p_def process_divs_def
          tree_defs final_defs str_nat.simps eval_defs)
  show ?thesis
    using gen ex1 ex2 ex3 ol_lines_empty by blast
qed

theorem C1_ordered_lists_witness:
  "process_ol
     [Elem (py ''ol'') []
        [Elem (py ''li'') [] [Text (py ''x'')], Elem (py ''li'') [] [Text (py '' '')],
         Elem (py ''li'') [] [Text (py ''y'')]]]
   = [Text ([NL] @ py ''  1. x'' @ [NL] @ py ''  3. y'' @ [NL])]
   \<and> process_ol [Elem (py ''ol'') [] [Elem (py ''li'') [] [Text (py '' '')]]] = []"
  using C1_ordered_lists [of "[]" "[Elem (py ''li'') [] [Text (py ''x'')],
          Elem (py ''li'') [] [Text (py '' '')], Elem (py ''li'') [] [Text (py ''y'')]]" ascii_upper]
    C1_ordered_lists [of "[]" "[Elem (py ''li'') [] [Text (py '' '')]]" ascii_upper]
  by (simp add: ol_lines_def enumerate_eq_zip tree_defs str_nat.simps eval_defs)

text \<open>
  The claim as written has the indented line \<open>  1. x\<close> in the result of \<open>convert\<close>. The
  result is \<open>1. x\<close>, newline, \<open>2. y\<close>: it has no such line and does not contain it.
\<close>

theorem C1_indentation_counterexample:
  "convert_soup ascii_upper
     [Elem (py ''ol'') []
        [Elem (py ''li'') [] [Text (py ''x'')], Elem (py ''li'') [] [Text (py ''y'')]]]
   = Inr (py ''1. x'' @ [NL] @ py ''2. y'')
   \<and> split_nl (py ''1. x'' @ [NL] @ py ''2. y'') = [py ''1. x'', py ''2. y'']
   \<and> py ''  1. x'' \<noteq> py ''1. x'' \<and> py ''  1. x'' \<noteq> py ''2. y''
   \<and> \<not> contains (py ''  1. x'') (py ''1. x'' @ [NL] @ py ''2. y'')"
  by (simp add: pass_defs tree_defs final_defs str_nat.simps eval_defs)

text \<open>
  Claim C6, as amended. For every unordered list the first loop of \<open>_process_lists\<close>
  visits, the trimmed text of every \<open>li\<close> element below the list, at any depth, is
  collected; each non-empty one gives a line of two spaces, the bullet, a space and the
  text; the list is replaced by these lines, joined with newlines, with one newline
  before and one after. Empty items are dropped and a list with no non-empty item is
  removed with no replacement. The pass turns the list of \<open>a\<close>, an empty item and \<open>b\<close>
  into the two indented bullet lines; \<open>convert\<close> returns them without the indentation.
\<close>

theorem C6_unordered_lists:
  "process_ul [Elem (py ''ul'') a cs] =
     (if ul_lines (find_all (is_tag [py ''li'']) (Elem (py ''ul'') a cs)) = [] then []
      else [Text ([NL] @ join [NL] (ul_lines (find_all (is_tag [py ''li'']) (Elem (py ''ul'') a cs)))
                  @ [NL])])
   \<and> ((ul_lines (find_all (is_tag [py ''li'']) (Elem (py ''ul'') a cs)) = [])
        = (\<forall>li \<in> set (find_all (is_tag [py ''li'']) (Elem (py ''ul'') a cs)).
             strip (get_text li) = []))
   \<and> process_lists
        [Elem (py ''ul'') []
           [Elem (py ''li'') [] [Text (py ''a'')], Elem (py ''li'') [] [],
            Elem (py ''li'') [] [Text (py ''b'')]]]
      = [Text ([NL] @ bullet @ py ''a'' @ [NL] @ bullet @ py ''b'' @ [NL])]
   \<and> convert_soup upper
        [Elem (py ''ul'') []
           [Elem (py ''li'') [] [Text (py ''a'')], Elem (py ''li'') [] [],
            Elem (py ''li'') [] [Text (py ''b'')]]]
      = Inr ([8226, SP] @ py ''a'' @ [NL] @ [8226, SP] @ py ''b'')"
proof -
  have gen: "process_ul [Elem (py ''ul'') a cs] =
     (if ul_lines (find_all (is_tag [py ''li'']) (Elem (py ''ul'') a cs)) = [] then []
      else [Text ([NL] @ join [NL] (ul_lines (find_all (is_tag [py ''li'']) (Elem (py ''ul'') a cs)))
                  @ [NL])])"
    using ul_items_filter [of "find_all (is_tag [py ''li'']) (Elem (py ''ul'') a cs)" "[]"]
    by (simp add: process_ul_def for_each_soup_def ul_body_def ul_lines_def Let_def)
  have ex1: "process_lists
        [Elem (py ''ul'') []
           [Elem (py ''li'') [] [Text (py ''a'')], Elem (py ''li'') [] [],
            Elem (py ''li'') [] [Text (py ''b'')]]]
      = [Text ([NL] @ bullet @ py ''a'' @ [NL] @ bullet @ py ''b'' @ [NL])]"
    by (simp add: pass_defs tree_defs eval_defs)
  have ex2: "convert_soup upper
        [Elem (py ''ul'') []
           [Elem (py ''li'') [] [Text (py ''a'')], Elem (py ''li'') [] [],
            Elem (py ''li'') [] [Text (py ''b'')]]]
      = Inr ([8226, SP] @ py ''a'' @ [NL] @ [8226, SP] @ py ''b'')"
    by (simp add: pass_defs tree_defs final_defs eval_defs)
  show ?thesis
    using gen ex1 ex2 ul_lines_empty by blast
qed

theorem C6_unordered_lists_witness:
  "process_ul
     [Elem (py ''ul'') []
        [Elem (py ''li'') [] [Text (py ''a'')], Elem (py ''li'') [] [],
         Elem (py ''li'') [] [Text (py ''b'')]]]
   = [Text ([NL] @ bullet @ py ''a'' @ [NL] @ bullet @ py ''b'' @ [NL])]
   \<and> process_ul [Elem (py ''ul'') [] [Text (py ''c''), Elem (py ''li'') [] []]] = []"
  using C6_unordered_lists [of "[]" "[Elem (py ''li'') [] [Text (py ''a'')], Elem (py ''li'') [] [],
         Elem (py ''li'') [] [Text (py ''b'')]]" ascii_upper]
    C6_unordered_lists [of "[]" "[Text (py ''c''), Elem (py ''li'') [] []]" ascii_upper]
  by (simp add: ul_lines_def tree_defs eval_defs bullet_def)

text \<open>
  The claim as written has the indented bullet lines in the result of \<open>convert\<close>, and
  collects the direct \<open>li\<close> children only. The result of \<open>convert\<close> has the lines without
  the two spaces, and an \<open>li\<close> of a nested list is collected as an item of the outer one.
\<close>

theorem C6_bullet_lines_counterexample:
  "convert_soup ascii_upper
     [Elem (py ''ul'') []
        [Elem (py ''li'') [] [Text (py ''a'')], Elem (py ''li'') [] [],
         Elem (py ''li'') [] [Text (py ''b'')]]]
   = Inr ([8226, SP] @ py ''a'' @ [NL] @ [8226, SP] @ py ''b'')
   \<and> split_nl ([8226, SP] @ py ''a'' @ [NL] @ [8226, SP] @ py ''b'')
       = [[8226, SP] @ py ''a'', [8226, SP] @ py ''b'']
   \<and> [8226, SP] @ py ''a'' \<noteq> bullet @ py ''a''
   \<and> process_ul
        [Elem (py ''ul'') []
           [Elem (py ''li'') []
              [Text (py ''a''),
               Elem (py ''ol'') [] [Elem (py ''li'') [] [Text (py ''c'')]]]]]
      = [Text ([NL] @ bullet @ py ''ac'' @ [NL] @ bullet @ py ''c'' @ [NL])]"
  by (simp add: pass_defs tree_defs final_defs eval_defs Let_def)

section \<open>Headings\<close>

lemma heading_map_levels:
  "heading_map = map (\<lambda>k. (py ''h'' @ str_nat k, marker k)) [1, 2, 3, 4, 5, 6]"
  by (simp add: heading_map_def marker_def str_nat.simps replicate_numeral eval_defs)

lemma replace_sp_eq_marker: "replace_sp_eq (marker k) = underline k \<or> 7 \<le> k"
  by (auto simp: replace_sp_eq_def marker_def underline_def SP_def replicate_append_same
      simp flip: replicate_Suc)

lemma heading_loops_other:
  "\<forall>tp \<in> set tps. n \<noteq> fst tp \<Longrightarrow>
   foldl (heading_pass upper) [Elem n a cs] tps = [Elem n a (foldl (heading_pass upper) cs tps)]"
proof (induction tps arbitrary: cs)
  case Nil
  then show ?case by simp
next
  case (Cons tp tps)
  from Cons.prems have 1: "n \<noteq> fst tp" and 2: "\<forall>tp \<in> set tps. n \<noteq> fst tp"
    by simp_all
  from 1 have "heading_pass upper [Elem n a cs] tp = [Elem n a (heading_pass upper cs tp)]"
    by (simp add: heading_pass_def for_each_soup_def)
  then show ?case
    using Cons.IH [OF 2] by simp
qed

lemma heading_loops_text: "foldl (heading_pass upper) [Text s] tps = [Text s]"
  by (induction tps) (simp_all add: heading_pass_def for_each_soup_def)

lemma process_headings_at:
  assumes "heading_map = pre @ (tag, prefix) # post"
    and "\<forall>tp \<in> set pre. tag \<noteq> fst tp"
    and "strip (get_text_soup (foldl (heading_pass upper) cs pre)) \<noteq> []"
  shows "process_headings upper [Elem tag a cs] =
     [Text ([NL, NL] @ prefix
            @ upper (strip (get_text_soup (foldl (heading_pass upper) cs pre)))
            @ [NL] @ replace_sp_eq prefix @ [NL])]"
proof -
  have 1: "foldl (heading_pass upper) [Elem tag a cs] pre
           = [Elem tag a (foldl (heading_pass upper) cs pre)]"
    using assms(2) by (rule heading_loops_other)
  have 2: "heading_pass upper [Elem tag a (foldl (heading_pass upper) cs pre)] (tag, prefix)
           = [Text ([NL, NL] @ prefix
                    @ upper (strip (get_text_soup (foldl (heading_pass upper) cs pre)))
                    @ [NL] @ replace_sp_eq prefix @ [NL])]"
    using assms(3)
    by (simp add: heading_pass_def for_each_soup_def heading_body_def get_text_soup_def)
  show ?thesis
    by (simp add: process_headings_def assms(1) 1 2 heading_loops_text)
qed

lemma heading_map_split:
  assumes "k \<in> {1, 2, 3, 4, 5, 6}"
  shows "heading_map = take (k - 1) heading_map @ (py ''h'' @ str_nat k, marker k) # drop k heading_map
    \<and> (\<forall>tp \<in> set (take (k - 1) heading_map). py ''h'' @ str_nat k \<noteq> fst tp)"
  using assms
  by (auto simp: heading_map_def marker_def str_nat.simps replicate_numeral eval_defs)

text \<open>
  Claim C2, as amended. For every heading of level 1 to 6 whose trimmed text is non-empty
  when the loop for its tag visits it, that loop replaces the element with two newlines,
  the marker (\<open>=\<close> signs, six for level 1 down to one for level 6, and a space), the text
  uppercased, a newline, an underline of \<open>=\<close> signs as wide as the marker with its space
  (seven for level 1, two for level 6), and a newline. For a heading at the top of the
  soup, the text is the one its children have after the loops for the levels above it,
  and the block stands in the soup after all six loops. For the heading \<open>Title\<close> of
  level 1 \<open>convert\<close> returns \<open>====== TITLE\<close> and a line of seven \<open>=\<close> signs.
\<close>

theorem C2_headings:
  assumes "k \<in> {1, 2, 3, 4, 5, 6}"
  shows "(py ''h'' @ str_nat k, marker k) \<in> set heading_map
    \<and> (strip (get_text (Elem (py ''h'' @ str_nat k) a cs)) \<noteq> [] \<longrightarrow>
         heading_pass upper [Elem (py ''h'' @ str_nat k) a cs] (py ''h'' @ str_nat k, marker k)
         = [Text ([NL, NL] @ marker k
                  @ upper (strip (get_text (Elem (py ''h'' @ str_nat k) a cs)))
                  @ [NL] @ underline k @ [NL])])
    \<and> (strip (get_text_soup (foldl (heading_pass upper) cs (take (k - 1) heading_map))) \<noteq> [] \<longrightarrow>
         process_headings upper [Elem (py ''h'' @ str_nat k) a cs]
         = [Text ([NL, NL] @ marker k
                  @ upper (strip (get_text_soup
                                    (foldl (heading_pass upper) cs (take (k - 1) heading_map))))
                  @ [NL] @ underline k @ [NL])])
    \<and> length (marker k) = 8 - k \<and> length (underline k) = 8 - k
    \<and> convert_soup ascii_upper [Elem (py ''h1'') [] [Text (py ''Title'')]]
        = Inr (py ''====== TITLE'' @ [NL] @ py ''======='')"
proof -
  have mem: "(py ''h'' @ str_nat k, marker k) \<in> set heading_map"
    using assms unfolding heading_map_levels by auto
  have ul: "replace_sp_eq (marker k) = underline k"
    using replace_sp_eq_marker [of k] assms by auto
  have len: "length (marker k) = 8 - k \<and> length (underline k) = 8 - k"
    using assms by (auto simp: marker_def underline_def)
  have ex: "convert_soup ascii_upper [Elem (py ''h1'') [] [Text (py ''Title'')]]
        = Inr (py ''====== TITLE'' @ [NL] @ py ''======='')"
    by (simp add: pass_defs tree_defs final_defs ascii_upper_def eval_defs Let_def)
  have split: "heading_map
      = take (k - 1) heading_map @ (py ''h'' @ str_nat k, marker k) # drop k heading_map"
    and other: "\<forall>tp \<in> set (take (k - 1) heading_map). py ''h'' @ str_nat k \<noteq> fst tp"
    using heading_map_split [OF assms] by blast+
  have loops: "strip (get_text_soup (foldl (heading_pass upper) cs (take (k - 1) heading_map))) \<noteq> [] \<longrightarrow>
         process_headings upper [Elem (py ''h'' @ str_nat k) a cs]
         = [Text ([NL, NL] @ marker k
                  @ upper (strip (get_text_soup
                                    (foldl (heading_pass upper) cs (take (k - 1) heading_map))))
                  @ [NL] @ underline k @ [NL])]"
    using process_headings_at [OF split other, of upper cs a] ul by simp
  have one: "strip (get_text (Elem (py ''h'' @ str_nat k) a cs)) \<noteq> [] \<longrightarrow>
         heading_pass upper [Elem (py ''h'' @ str_nat k) a cs] (py ''h'' @ str_nat k, marker k)
         = [Text ([NL, NL] @ marker k
                  @ upper (strip (get_text (Elem (py ''h'' @ str_nat k) a cs)))
                  @ [NL] @ underline k @ [NL])]"
    by (simp add: heading_pass_def for_each_soup_def heading_body_def Let_def ul)
  show ?thesis
    using mem one loops len ex by blast
qed

theorem C2_headings_witness:
  "heading_pass ascii_upper [Elem (py ''h1'') [] [Text (py ''Title'')]] (py ''h1'', py ''====== '')
   = [Text ([NL, NL] @ py ''====== TITLE'' @ [NL] @ py ''======='' @ [NL])]
   \<and> process_headings ascii_upper
       [Elem (py ''h2'') [] [Text (py ''b ''), Elem (py ''h1'') [] [Text (py ''a'')]]]
   = [Text ([NL, NL] @ py ''===== B '' @ [NL, NL] @ py ''====== A'' @ [NL] @ py ''=======''
            @ [NL] @ py ''======'' @ [NL])]"
  using C2_headings [of 1 "[]" "[Text (py ''Title'')]" ascii_upper]
    C2_headings [of 2 "[]" "[Text (py ''b ''), Elem (py ''h1'') [] [Text (py ''a'')]]" ascii_upper]
  by (simp add: marker_def underline_def str_nat.simps replicate_numeral ascii_upper_def
        heading_map_def heading_pass_def heading_body_def replace_sp_eq_def tree_defs eval_defs)

text \<open>
  The claim as written has a line of exactly six \<open>=\<close> signs under \<open>====== TITLE\<close>, and
  has the heading with empty text dropped. The line has seven, and the empty heading
  stays in the soup, so that its blank shows between the texts around it.
\<close>

theorem C2_underline_counterexample:
  "convert_soup ascii_upper [Elem (py ''h1'') [] [Text (py ''Title'')]]
     = Inr (py ''====== TITLE'' @ [NL] @ py ''======='')
   \<and> split_nl (py ''====== TITLE'' @ [NL] @ py ''======='') = [py ''====== TITLE'', py ''=======''] 
   \<and> py ''======='' \<noteq> py ''======''
   \<and> process_headings ascii_upper [Elem (py ''h1'') [] [Text (py '' '')]]
     = [Elem (py ''h1'') [] [Text (py '' '')]]
   \<and> convert_soup ascii_upper
        [Text (py ''a''), Elem (py ''h1'') [] [Text (py '' '')], Text (py ''b'')]
     = Inr (py ''a b'')"
  by (simp add: pass_defs tree_defs final_defs ascii_upper_def eval_defs Let_def)

section \<open>Block containers\<close>

text \<open>
  The loop over the \<open>div\<close> elements, on the soup as it finds it: a \<open>div\<close> with non-empty
  trimmed text and no direct child named in the list is replaced by its trimmed text
  between two newlines; a \<open>div\<close> with such a child is left untouched.
\<close>

lemma div_loop_cases:
  "(strip (get_text (Elem (py ''div'') a cs)) \<noteq> []
      \<and> (\<forall>child \<in> set cs. \<not> is_tag structural_tags child)
     \<longrightarrow> process_divs [Elem (py ''div'') a cs]
          = [Text ([NL] @ strip (get_text (Elem (py ''div'') a cs)) @ [NL])])
   \<and> ((\<exists>child \<in> set cs. is_tag structural_tags child)
     \<longrightarrow> div_body (Elem (py ''div'') a cs) = Untouched
         \<and> process_divs [Elem (py ''div'') a cs] = [Elem (py ''div'') a (process_divs cs)])
   \<and> structural_tags = [py ''p'', py ''h1'', py ''h2'', py ''h3'', py ''h4'', py ''h5'',
                          py ''h6'', py ''ul'', py ''ol'', py ''table'']"
  by (auto simp: process_divs_def for_each_soup_def div_body_def list_ex_iff Let_def
        structural_tags_def)

text \<open>
  Claim C7 has a \<open>div\<close> that directly contains a paragraph left untouched. On the \<open>div\<close>
  as parsed the test of the loop body does say so. But the loop over the paragraphs runs
  first and puts a string in the place of the paragraph, so the test finds no such
  child when the \<open>div\<close> is visited, and the \<open>div\<close> is replaced: for \<open>x\<close> and the
  paragraph \<open>y\<close> in a \<open>div\<close> between \<open>a\<close> and \<open>b\<close>, \<open>convert\<close> returns the four lines
  \<open>a\<close>, \<open>x\<close>, \<open>y\<close>, \<open>b\<close>, where an untouched \<open>div\<close> would give the three lines \<open>ax\<close>,
  \<open>y\<close>, \<open>b\<close>.
\<close>

theorem C7_div_with_paragraph_replaced:
  "div_body (Elem (py ''div'') [] [Text (py ''x''), Elem (py ''p'') [] [Text (py ''y'')]])
     = Untouched
   \<and> process_paragraphs
        [Elem (py ''div'') [] [Text (py ''x''), Elem (py ''p'') [] [Text (py ''y'')]]]
     = [Text ([NL] @ py ''x'' @ [NL] @ py ''y'' @ [NL])]
   \<and> convert_soup ascii_upper
        [Text (py ''a''),
         Elem (py ''div'') [] [Text (py ''x''), Elem (py ''p'') [] [Text (py ''y'')]],
         Text (py ''b'')]
     = Inr (py ''a'' @ [NL] @ py ''x'' @ [NL] @ py ''y'' @ [NL] @ py ''b'')
   \<and> finalize_formatting
        (get_text_soup
           [Text (py ''a''),
            Elem (py ''div'') [] [Text (py ''x''), Text ([NL] @ py ''y'' @ [NL])],
            Text (py ''b'')])
     = py ''ax'' @ [NL] @ py ''y'' @ [NL] @ py ''b''"
  by (simp add: pass_defs tree_defs final_defs eval_defs Let_def)

section \<open>Tables and elements with blank content\<close>

lemma row_cells_map: "row_cells cells acc = acc @ map (\<lambda>cell. strip (get_text cell)) cells"
  by (induction cells arbitrary: acc) simp_all

lemma table_rows_map:
  "table_rows trs rows =
     rows @ map (\<lambda>tr. join (py '' | '')
                  (map (\<lambda>cell. strip (get_text cell)) (find_all (is_tag [py ''td'', py ''th'']) tr)))
             (filter (\<lambda>tr. find_all (is_tag [py ''td'', py ''th'']) tr \<noteq> []) trs)"
  by (induction trs arbitrary: rows) (simp_all add: row_cells_map Let_def)

lemma process_tables_block:
  "process_tables [Elem (py ''table'') a cs] =
     (if table_lines (Elem (py ''table'') a cs) = [] then []
      else [Text ([NL] @ join [NL] (map (\<lambda>row. [SP, SP] @ row) (table_lines (Elem (py ''table'') a cs)))
                  @ [NL])])"
  using table_rows_map [of "find_all (is_tag [py ''tr'']) (Elem (py ''table'') a cs)" "[]"]
  by (simp add: process_tables_def for_each_soup_def table_body_def table_lines_def Let_def
        comp_def)

lemma table_lines_empty:
  "(table_lines t = []) =
     (\<forall>tr \<in> set (find_all (is_tag [py ''tr'']) t). find_all (is_tag [py ''td'', py ''th'']) tr = [])"
  by (auto simp: table_lines_def filter_empty_conv)

lemma strip_empty: "(strip s = []) = (\<forall>c \<in> set s. isspace c)"
proof -
  have "(strip s = []) = (\<forall>c \<in> set (dropWhile isspace s). isspace c)"
    by (simp add: strip_def)
  also have "\<dots> = (\<forall>c \<in> set s. isspace c)"
  proof
    assume a: "\<forall>c \<in> set (dropWhile isspace s). isspace c"
    have "dropWhile isspace s = []"
    proof (rule ccontr)
      assume ne: "dropWhile isspace s \<noteq> []"
      then have "\<not> isspace (hd (dropWhile isspace s))" by (rule hd_dropWhile)
      moreover from ne have "hd (dropWhile isspace s) \<in> set (dropWhile isspace s)" by simp
      ultimately show False using a by blast
    qed
    then show "\<forall>c \<in> set s. isspace c" by simp
  next
    assume "\<forall>c \<in> set s. isspace c"
    then show "\<forall>c \<in> set (dropWhile isspace s). isspace c"
      using set_dropWhileD by fastforce
  qed
  finally show ?thesis .
qed

lemma descendants_text: "d \<in> set (descendants t) \<Longrightarrow> set (get_text d) \<subseteq> set (get_text t)"
proof (induction t)
  case (Text s)
  then show ?case by simp
next
  case (Comment s)
  then show ?case by simp
next
  case (Elem n a cs)
  from Elem.prems obtain c where c: "c \<in> set cs" and d: "d = c \<or> d \<in> set (descendants c)"
    by auto
  from d have "set (get_text d) \<subseteq> set (get_text c)"
    using Elem.IH [OF c] by auto
  with c show ?case by auto
qed

lemma blank_descendants:
  "strip (get_text t) = [] \<Longrightarrow> d \<in> set (find_all m t) \<Longrightarrow> strip (get_text d) = []"
  using descendants_text [of d t] by (auto simp: strip_empty find_all_def)

lemma process_ul_blank:
  assumes "strip (get_text (Elem (py ''ul'') a cs)) = []"
  shows "process_ul [Elem (py ''ul'') a cs] = []"
proof -
  have "filter (\<lambda>li. strip (get_text li) \<noteq> []) (find_all (is_tag [py ''li'']) (Elem (py ''ul'') a cs)) = []"
    using blank_descendants [OF assms] by (auto simp: filter_empty_conv)
  then show ?thesis
    using ul_items_filter [of "find_all (is_tag [py ''li'']) (Elem (py ''ul'') a cs)" "[]"]
    by (simp add: process_ul_def for_each_soup_def ul_body_def Let_def)
qed

lemma process_ol_blank:
  assumes "strip (get_text (Elem (py ''ol'') a cs)) = []"
  shows "process_ol [Elem (py ''ol'') a cs] = []"
proof -
  have "ol_lines (find_all (is_tag [py ''li'']) (Elem (py ''ol'') a cs)) = []"
    using blank_descendants [OF assms] by (simp add: ol_lines_empty)
  then show ?thesis
    using ol_items_enumerate [of 1 "find_all (is_tag [py ''li'']) (Elem (py ''ol'') a cs)" "[]"]
    by (simp add: process_ol_def for_each_soup_def ol_body_def ol_lines_def Let_def)
qed

text \<open>
  Claim C4, as amended. A paragraph or a list (ordered or not) whose whole text content
  is whitespace when the loop for its kind visits it is removed with no replacement. For
  every table the table loop visits, each row's cells' trimmed texts are joined with
  \<open> | \<close>; every row that has at least one cell gives a line, also when all its cells
  are empty; the lines are prefixed with two spaces, joined with newlines and put between
  two newlines. A table is removed with no replacement exactly when none of its rows has
  a cell. The table with the one row of cells \<open>A\<close> and \<open>B\<close> becomes the line \<open>  A | B\<close>;
  the table with one row of two blank cells becomes a line with the separator only.
\<close>

theorem C4_blank_elements:
  assumes "strip (concat (map get_text cs)) = []"
  shows "process_p [Elem (py ''p'') a cs] = []
    \<and> process_ul [Elem (py ''ul'') a cs] = []
    \<and> process_ol [Elem (py ''ol'') a cs] = []
    \<and> process_tables [Elem (py ''table'') b ds] =
        (if table_lines (Elem (py ''table'') b ds) = [] then []
         else [Text ([NL] @ join [NL] (map (\<lambda>row. [SP, SP] @ row)
                                         (table_lines (Elem (py ''table'') b ds))) @ [NL])])
    \<and> ((table_lines (Elem (py ''table'') b ds) = []) =
         (\<forall>tr \<in> set (find_all (is_tag [py ''tr'']) (Elem (py ''table'') b ds)).
            find_all (is_tag [py ''td'', py ''th'']) tr = []))
    \<and> process_tables
         [Elem (py ''table'') []
            [Elem (py ''tr'') []
               [Elem (py ''td'') [] [Text (py ''A'')], Elem (py ''td'') [] [Text (py ''B'')]]]]
        = [Text ([NL] @ py ''  A | B'' @ [NL])]
    \<and> process_tables
         [Elem (py ''table'') []
            [Elem (py ''tr'') []
               [Elem (py ''td'') [] [Text (py '' '')], Elem (py ''td'') [] [Text (py '' '')]]]]
        = [Text ([NL] @ py ''   | '' @ [NL])]"
proof -
  have ex1: "process_tables
         [Elem (py ''table'') []
            [Elem (py ''tr'') []
               [Elem (py ''td'') [] [Text (py ''A'')], Elem (py ''td'') [] [Text (py ''B'')]]]]
        = [Text ([NL] @ py ''  A | B'' @ [NL])]"
    by (simp add: pass_defs tree_defs eval_defs Let_def)
  have ex2: "process_tables
         [Elem (py ''table'') []
            [Elem (py ''tr'') []
               [Elem (py ''td'') [] [Text (py '' '')], Elem (py ''td'') [] [Text (py '' '')]]]]
        = [Text ([NL] @ py ''   | '' @ [NL])]"
    by (simp add: pass_defs tree_defs eval_defs Let_def)
  have ws: "strip (get_text (Elem n a cs)) = []" for n
    using assms(1) by simp
  have p: "process_p [Elem (py ''p'') a cs] = []"
    using ws by (simp add: process_p_def for_each_soup_def p_body_def)
  show ?thesis
    using p process_ul_blank [OF ws] process_ol_blank [OF ws]
      process_tables_block table_lines_empty ex1 ex2
    by blast
qed

theorem C4_blank_elements_witness:
  "strip (concat (map get_text [Text (py '' ''), Elem (py ''li'') [] [Text [NL]]])) = []
   \<and> process_p [Elem (py ''p'') [] [Text (py '' ''), Elem (py ''li'') [] [Text [NL]]]] = []
   \<and> process_ul [Elem (py ''ul'') [] [Text (py '' ''), Elem (py ''li'') [] [Text [NL]]]] = []
   \<and> process_ol [Elem (py ''ol'') [] [Text (py '' ''), Elem (py ''li'') [] [Text [NL]]]] = []
   \<and> process_tables [Elem (py ''table'') [] [Elem (py ''tr'') [] [Text (py ''x'')]]] = []"
proof -
  have ws: "strip (concat (map get_text [Text (py '' ''), Elem (py ''li'') [] [Text [NL]]])) = []"
    by (simp add: eval_defs)
  show ?thesis
    using ws C4_blank_elements [OF ws, of "[]" "[]" "[Elem (py ''tr'') [] [Text (py ''x'')]]"]
    by (simp add: table_lines_def tree_defs eval_defs)
qed

text \<open>
  The claim as written removes a table all of whose cells are blank. The row test of
  the code is on the list of cells, not on their text: the table below, whose whole
  text is whitespace, is replaced by a separator line, and \<open>convert\<close> returns \<open>|\<close>.
\<close>

theorem C4_blank_table_counterexample:
  "strip (get_text
            (Elem (py ''table'') []
               [Elem (py ''tr'') []
                  [Elem (py ''td'') [] [Text (py '' '')], Elem (py ''td'') [] [Text (py '' '')]]]))
     = []
   \<and> process_tables
        [Elem (py ''table'') []
           [Elem (py ''tr'') []
              [Elem (py ''td'') [] [Text (py '' '')], Elem (py ''td'') [] [Text (py '' '')]]]]
     = [Text ([NL] @ py ''   | '' @ [NL])]
   \<and> convert_soup ascii_upper
        [Elem (py ''table'') []
           [Elem (py ''tr'') []
              [Elem (py ''td'') [] [Text (py '' '')], Elem (py ''td'') [] [Text (py '' '')]]]]
     = Inr (py ''|'')"
  by (simp add: pass_defs tree_defs final_defs eval_defs Let_def)

section \<open>Links\<close>

text \<open>
  The loop over the links, on a link it finds intact, with \<open>t\<close> the trimmed text and \<open>u\<close>
  the trimmed destination: the five cases of the body, and the soup after the loop when
  the loop runs to its end.
\<close>

lemma link_loop_cases:
  assumes "map_of a (py ''href'') = Some h"
    and "t = strip (get_text (Elem (py ''a'') a cs))"
    and "u = strip h"
  shows "(t \<noteq> [] \<and> u \<noteq> [] \<and> t \<noteq> u \<longrightarrow>
            link_body (Elem (py ''a'') a cs) = ReplaceWith (t @ py '' ['' @ u @ py '']''))
    \<and> (t \<noteq> [] \<and> u \<noteq> [] \<and> t = u \<longrightarrow> link_body (Elem (py ''a'') a cs) = ReplaceWith u)
    \<and> (t \<noteq> [] \<and> u = [] \<longrightarrow> link_body (Elem (py ''a'') a cs) = ReplaceWith t)
    \<and> (t = [] \<and> u \<noteq> [] \<longrightarrow> link_body (Elem (py ''a'') a cs) = ReplaceWith u)
    \<and> (t = [] \<and> u = [] \<longrightarrow> link_body (Elem (py ''a'') a cs) = Decompose)
    \<and> (\<not> wiped_link_visited (Elem (py ''a'') a cs) \<longrightarrow>
          process_links [Elem (py ''a'') a cs]
          = Inr (case link_body (Elem (py ''a'') a cs) of
                   ReplaceWith s \<Rightarrow> [Text s]
                 | Decompose \<Rightarrow> []
                 | Untouched \<Rightarrow> [Elem (py ''a'') a cs]))
    \<and> convert_soup upper
         [Elem (py ''a'') [(py ''href'', py ''http://e.com'')] [Text (py ''here'')]]
        = Inr (py ''here [http://e.com]'')
    \<and> convert_soup upper
         [Elem (py ''a'') [(py ''href'', py ''http://e.com'')] [Text (py ''http://e.com'')]]
        = Inr (py ''http://e.com'')"
proof -
  have body: "link_body (Elem (py ''a'') a cs) =
      (if t \<noteq> [] \<and> u \<noteq> [] then
         (if t \<noteq> u then ReplaceWith (t @ py '' ['' @ u @ py '']'') else ReplaceWith u)
       else if t \<noteq> [] then ReplaceWith t
       else if u \<noteq> [] then ReplaceWith u
       else Decompose)"
    using assms by (simp add: link_body_def Let_def)
  have link: "is_link (Elem (py ''a'') a cs)"
    using assms(1) by (simp add: is_link_def)
  have pass: "\<not> wiped_link_visited (Elem (py ''a'') a cs) \<longrightarrow>
          process_links [Elem (py ''a'') a cs]
          = Inr (case link_body (Elem (py ''a'') a cs) of
                   ReplaceWith s \<Rightarrow> [Text s]
                 | Decompose \<Rightarrow> []
                 | Untouched \<Rightarrow> [Elem (py ''a'') a cs])"
    using link body
    by (simp add: process_links_def for_each_soup_def split: action.splits)
  have ex1: "convert_soup upper
         [Elem (py ''a'') [(py ''href'', py ''http://e.com'')] [Text (py ''here'')]]
        = Inr (py ''here [http://e.com]'')"
    by (simp add: pass_defs tree_defs final_defs eval_defs Let_def)
  have ex2: "convert_soup upper
         [Elem (py ''a'') [(py ''href'', py ''http://e.com'')] [Text (py ''http://e.com'')]]
        = Inr (py ''http://e.com'')"
    by (simp add: pass_defs tree_defs final_defs eval_defs Let_def)
  show ?thesis
    using body pass ex1 ex2 by simp
qed

text \<open>
  Claim C3 has every link with a destination that is visited replaced by \<open>t [u]\<close>, \<open>u\<close>
  or \<open>t\<close>, or dropped when both are empty. In the document
  \<open><a href=""><a href="x"></a></a>\<close> the inner link has a destination and no text, so
  the claim has it replaced by \<open>x\<close>, and the body applied to it says so. The loop
  visits it after it has decomposed the outer link, which wiped the inner one, and
  \<open>link["href"]\<close> raises \<open>TypeError\<close>.
\<close>

theorem C3_wiped_link_raises:
  "is_link (Elem (py ''a'') [(py ''href'', py ''x'')] [])
   \<and> strip (get_text (Elem (py ''a'') [(py ''href'', py ''x'')] [])) = []
   \<and> strip (py ''x'') = py ''x''
   \<and> link_body (Elem (py ''a'') [(py ''href'', py ''x'')] []) = ReplaceWith (py ''x'')
   \<and> link_body (Elem (py ''a'') [(py ''href'', [])] [Elem (py ''a'') [(py ''href'', py ''x'')] []])
       = Decompose
   \<and> process_links
        [Elem (py ''a'') [(py ''href'', [])] [Elem (py ''a'') [(py ''href'', py ''x'')] []]]
     = Inl TypeError"
  by (simp add: pass_defs tree_defs eval_defs Let_def)

section \<open>Errors\<close>

text \<open>
  Claim C9 says that \<open>convert\<close> never raises. For the document
  \<open><a href=""><a href="x"></a></a>\<close> the outer link has neither text nor destination
  and is decomposed; the loop then visits the inner link, which was wiped with it, and
  \<open>link["href"]\<close> raises \<open>TypeError\<close>.
\<close>

theorem C9_nested_link_raises:
  "convert_soup ascii_upper
     [Elem (py ''a'') [(py ''href'', [])] [Elem (py ''a'') [(py ''href'', py ''x'')] []]]
   = Inl TypeError"
  by (simp add: pass_defs tree_defs eval_defs Let_def)

section \<open>Character references\<close>

text \<open>
  Claim C10. \<open>convert\<close> parses the unescaped input, so character references are decoded
  by \<open>html.unescape\<close> and then once more by the parser; \<open>extract_attachments_info\<close>
  parses the raw input, which decodes them once. The two library functions are
  parameters; what they do on the example is assumed as they do it: \<open>html.unescape\<close>
  turns \<open>&amp;amp;\<close> into \<open>&amp;\<close>, and the parser turns \<open>&amp;\<close> in text into \<open>&\<close>.
  Then, for the link with the text \<open>download &amp;amp;\<close>, \<open>convert\<close> renders the text as
  \<open>download &\<close> and \<open>extract_attachments_info\<close> reports the name \<open>download &amp;\<close>.
\<close>

theorem C10_double_decoding:
  assumes "unescape (py ''<a href=f>download &amp;amp;</a>'') = py ''<a href=f>download &amp;</a>''"
    and "parse (py ''<a href=f>download &amp;</a>'')
         = [Elem (py ''a'') [(py ''href'', py ''f'')] [Text (py ''download &'')]]"
    and "parse (py ''<a href=f>download &amp;amp;</a>'')
         = [Elem (py ''a'') [(py ''href'', py ''f'')] [Text (py ''download &amp;'')]]"
    and "lower (py ''download &amp;'') = py ''download &amp;''"
  shows "(\<forall>html. html \<noteq> [] \<longrightarrow>
            convert unescape parse upper (Some html) = convert_soup upper (parse (unescape html)))
    \<and> (\<forall>html. html \<noteq> [] \<longrightarrow>
            extract_attachments_info parse lower (Some html) = extract_soup lower (parse html))
    \<and> convert unescape parse upper (Some (py ''<a href=f>download &amp;amp;</a>''))
        = Inr (py ''download & [f]'')
    \<and> extract_attachments_info parse lower (Some (py ''<a href=f>download &amp;amp;</a>''))
        = [\<lparr>name = py ''download &amp;'', url = py ''f''\<rparr>]"
proof -
  have ne: "py ''<a href=f>download &amp;amp;</a>'' \<noteq> []"
    by (simp add: py_def)
  have c: "convert_soup upper [Elem (py ''a'') [(py ''href'', py ''f'')] [Text (py ''download &'')]]
           = Inr (py ''download & [f]'')"
    by (simp add: pass_defs tree_defs final_defs eval_defs Let_def)
  have name: "strip (py ''download &amp;'') = py ''download &amp;''"
    by (simp add: eval_defs)
  have e: "extract_soup lower [Elem (py ''a'') [(py ''href'', py ''f'')] [Text (py ''download &amp;'')]]
           = [\<lparr>name = py ''download &amp;'', url = py ''f''\<rparr>]"
    using assms(4)
    by (simp add: extract_soup_def find_all_soup_def is_link_def name)
       (simp add: attachment_keywords_def py_def)
  show ?thesis
    using ne c e assms(1,2,3)
    by (simp add: convert_def extract_attachments_info_def)
qed

theorem C10_double_decoding_witness:
  "convert
     (\<lambda>s. if s = py ''<a href=f>download &amp;amp;</a>'' then py ''<a href=f>download &amp;</a>'' else s)
     (\<lambda>s. if s = py ''<a href=f>download &amp;</a>''
          then [Elem (py ''a'') [(py ''href'', py ''f'')] [Text (py ''download &'')]]
          else [Elem (py ''a'') [(py ''href'', py ''f'')] [Text (py ''download &amp;'')]])
     ascii_upper (Some (py ''<a href=f>download &amp;amp;</a>''))
   = Inr (py ''download & [f]'')
   \<and> extract_attachments_info
     (\<lambda>s. if s = py ''<a href=f>download &amp;</a>''
          then [Elem (py ''a'') [(py ''href'', py ''f'')] [Text (py ''download &'')]]
          else [Elem (py ''a'') [(py ''href'', py ''f'')] [Text (py ''download &amp;'')]])
     ascii_lower (Some (py ''<a href=f>download &amp;amp;</a>''))
   = [\<lparr>name = py ''download &amp;'', url = py ''f''\<rparr>]"
proof -
  let ?unescape = "\<lambda>s. if s = py ''<a href=f>download &amp;amp;</a>''
                        then py ''<a href=f>download &amp;</a>'' else s"
  let ?parse = "\<lambda>s. if s = py ''<a href=f>download &amp;</a>''
          then [Elem (py ''a'') [(py ''href'', py ''f'')] [Text (py ''download &'')]]
          else [Elem (py ''a'') [(py ''href'', py ''f'')] [Text (py ''download &amp;'')]]"
  have 1: "?unescape (py ''<a href=f>download &amp;amp;</a>'') = py ''<a href=f>download &amp;</a>''"
    by simp
  have 2: "?parse (py ''<a href=f>download &amp;</a>'')
         = [Elem (py ''a'') [(py ''href'', py ''f'')] [Text (py ''download &'')]]"
    by simp
  have 3: "?parse (py ''<a href=f>download &amp;amp;</a>'')
         = [Elem (py ''a'') [(py ''href'', py ''f'')] [Text (py ''download &amp;'')]]"
    by (simp add: py_def)
  have 4: "ascii_lower (py ''download &amp;'') = py ''download &amp;''"
    by (simp add: ascii_lower_def py_def)
  from C10_double_decoding [of ?unescape ?parse ascii_lower ascii_upper, OF 1 2 3 4]
  show ?thesis by blast
qed

end
